theory Spec2Isabelle
  imports Main
begin

section \<open>The brace-depth scan of analyze\_comment\_structure.py\<close>

text \<open>
  The script reads the first 10000 characters of the archive into \<open>sample\<close> and walks
  over them once with three variables: \<open>depth\<close>, \<open>in_string\<close> and \<open>escape_next\<close>.
  Python integers are unbounded, so \<open>depth\<close> is an \<open>int\<close>; it may become negative.
  The text is a \<open>string\<close>, a list of characters; the scripts compare its characters
  with a few fixed ones only (backslash, double quote, the two braces, the colon, and
  white space in one pattern).
\<close>

record scan_state =
  depth :: int
  in_string :: bool
  escape_next :: bool

text \<open>Lines 31-33: the three variables are assigned afresh before the loop.\<close>

definition init_state :: scan_state where
  "init_state = \<lparr>depth = 0, in_string = False, escape_next = False\<rparr>"

abbreviation backslash :: char where "backslash \<equiv> CHR 0x5C"
abbreviation dquote :: char where "dquote \<equiv> CHR 0x22"
abbreviation lbrace :: char where "lbrace \<equiv> CHR 0x7B"
abbreviation rbrace :: char where "rbrace \<equiv> CHR 0x7D"
abbreviation colon :: char where "colon \<equiv> CHR 0x3A"

text \<open>
  \<open>f.read(n)\<close> on a text file: the next (at most) \<open>n\<close> characters and the rest of
  the file.
\<close>

definition read :: "nat \<Rightarrow> string \<Rightarrow> string \<times> string" where
  "read n f = (take n f, drop n f)"

text \<open>
  \<open>sample.find(':')\<close>: the index of the first occurrence, Python's \<open>-1\<close> being \<open>None\<close>.
\<close>

fun find_from :: "char \<Rightarrow> string \<Rightarrow> nat \<Rightarrow> nat option" where
  "find_from c [] k = None"
| "find_from c (x # xs) k = (if x = c then Some k else find_from c xs (Suc k))"

definition str_find :: "char \<Rightarrow> string \<Rightarrow> nat option" where
  "str_find c s = find_from c s 0"

text \<open>
  Lines 35-60, \<open>for i, char in enumerate(sample)\<close>. The arguments are the whole
  \<open>sample\<close> (searched for its first colon when a closing brace qualifies), the
  characters still to be visited, the index \<open>i\<close> of the first of them and the three
  variables. The result is the pair of slice bounds of
  \<open>obj_sample = sample[first_colon+1:i+1]\<close> when the loop ends in \<open>break\<close>, and
  \<open>None\<close> when it runs off the end of \<open>sample\<close>. When the closing brace
  qualifies but \<open>sample\<close> has no colon, nothing is printed and the loop goes on.
\<close>

fun scan_loop :: "string \<Rightarrow> string \<Rightarrow> nat \<Rightarrow> scan_state \<Rightarrow> (nat \<times> nat) option" where
  "scan_loop sample [] i s = None"
| "scan_loop sample (char # rest) i s =
     (if escape_next s then scan_loop sample rest (Suc i) (s\<lparr>escape_next := False\<rparr>)
      else if char = backslash then scan_loop sample rest (Suc i) (s\<lparr>escape_next := True\<rparr>)
      else if char = dquote \<and> \<not> escape_next s then
        scan_loop sample rest (Suc i) (s\<lparr>in_string := \<not> in_string s\<rparr>)
      else if \<not> in_string s then
        (if char = lbrace then scan_loop sample rest (Suc i) (s\<lparr>depth := depth s + 1\<rparr>)
         else if char = rbrace then
           (let s' = s\<lparr>depth := depth s - 1\<rparr> in
            if depth s' = 1 \<and> i > 1000 then
              (case str_find colon sample of
                 Some first_colon \<Rightarrow> Some (first_colon + 1, i + 1)
               | None \<Rightarrow> scan_loop sample rest (Suc i) s')
            else scan_loop sample rest (Suc i) s')
         else scan_loop sample rest (Suc i) s)
      else scan_loop sample rest (Suc i) s)"

definition scan :: "string \<Rightarrow> (nat \<times> nat) option" where
  "scan sample = scan_loop sample sample 0 init_state"

text \<open>Python's slice \<open>s[a:b]\<close> for bounds that are not negative.\<close>

definition slice :: "string \<Rightarrow> nat \<Rightarrow> nat \<Rightarrow> string" where
  "slice s a b = take (b - a) (drop a s)"

text \<open>
  The script as a whole, seen as a block that can be run again: the variables left by an
  earlier run are overwritten by lines 31-33 before the loop starts. The block reads
  \<open>sample\<close> from the file (line 7) and leaves nothing else behind.
\<close>

definition run_script :: "scan_state \<Rightarrow> string \<Rightarrow> (nat \<times> nat) option" where
  "run_script leftover file = (let s = init_state; sample = fst (read 10000 file) in scan_loop sample sample 0 s)"

subsection \<open>The variables after a prefix of the input\<close>

text \<open>
  One turn of the loop body as a change of the three variables, when the loop does not
  stop there; \<open>run\<close> applies it to a sequence of characters.
\<close>

definition step :: "char \<Rightarrow> scan_state \<Rightarrow> scan_state" where
  "step char s =
     (if escape_next s then s\<lparr>escape_next := False\<rparr>
      else if char = backslash then s\<lparr>escape_next := True\<rparr>
      else if char = dquote \<and> \<not> escape_next s then s\<lparr>in_string := \<not> in_string s\<rparr>
      else if \<not> in_string s then
        (if char = lbrace then s\<lparr>depth := depth s + 1\<rparr>
         else if char = rbrace then s\<lparr>depth := depth s - 1\<rparr>
         else s)
      else s)"

fun run :: "string \<Rightarrow> scan_state \<Rightarrow> scan_state" where
  "run [] s = s"
| "run (c # cs) s = run cs (step c s)"

text \<open>
  A turn of the loop qualifies when it visits a closing brace outside a string, not
  escaped, that brings \<open>depth\<close> to exactly 1 (line 53 without the test on \<open>i\<close>).
\<close>

definition closes_at :: "char \<Rightarrow> scan_state \<Rightarrow> bool" where
  "closes_at char s \<longleftrightarrow>
     char = rbrace \<and> \<not> escape_next s \<and> \<not> in_string s \<and> depth s - 1 = 1"

definition qualifying :: "string \<Rightarrow> nat \<Rightarrow> bool" where
  "qualifying sample i \<longleftrightarrow>
     i < length sample \<and> closes_at (sample ! i) (run (take i sample) init_state)"

text \<open>
  The turn that ends the loop, when there is a colon: the first qualifying turn whose index
  passes the test \<open>i > 1000\<close>. \<open>first_hit\<close> is the same notion for a loop that is
  already under way, at index \<open>i\<close> with variables \<open>s\<close>.
\<close>

definition first_close :: "string \<Rightarrow> nat \<Rightarrow> bool" where
  "first_close sample j \<longleftrightarrow>
     qualifying sample j \<and> 1000 < j \<and> (\<forall>j'<j. qualifying sample j' \<longrightarrow> j' \<le> 1000)"

definition first_hit :: "string \<Rightarrow> nat \<Rightarrow> scan_state \<Rightarrow> nat \<Rightarrow> bool" where
  "first_hit cs i s j \<longleftrightarrow>
     j < length cs \<and> closes_at (cs ! j) (run (take j cs) s) \<and> 1000 < i + j \<and>
     (\<forall>j'<j. closes_at (cs ! j') (run (take j' cs) s) \<longrightarrow> i + j' \<le> 1000)"

subsection \<open>Well-formed input\<close>

text \<open>
  A character is plain when the loop body has no branch for it. The contents of a string
  literal are characters other than the quote and the backslash, and backslash pairs; a
  body is a sequence of plain characters, string literals and nested brace pairs. Braces
  may occur inside string literals.
\<close>

definition plain :: "char \<Rightarrow> bool" where
  "plain c \<longleftrightarrow> c \<noteq> backslash \<and> c \<noteq> dquote \<and> c \<noteq> lbrace \<and> c \<noteq> rbrace"

inductive wf_str :: "string \<Rightarrow> bool" where
  str_nil: "wf_str []"
| str_char: "c \<noteq> dquote \<Longrightarrow> c \<noteq> backslash \<Longrightarrow> wf_str t \<Longrightarrow> wf_str (c # t)"
| str_esc: "wf_str t \<Longrightarrow> wf_str (backslash # c # t)"

inductive wf_body :: "string \<Rightarrow> bool" where
  body_nil: "wf_body []"
| body_plain: "plain c \<Longrightarrow> wf_body xs \<Longrightarrow> wf_body (c # xs)"
| body_str: "wf_str t \<Longrightarrow> wf_body xs \<Longrightarrow> wf_body (dquote # t @ dquote # xs)"
| body_obj: "wf_body ys \<Longrightarrow> wf_body xs \<Longrightarrow> wf_body (lbrace # ys @ rbrace # xs)"

text \<open>
  The specification's reading of a matched span: one brace-delimited region whose braces
  (outside strings) balance at its last character and not before.
\<close>

definition balanced_region :: "string \<Rightarrow> bool" where
  "balanced_region r \<longleftrightarrow>
     r \<noteq> [] \<and> hd r = lbrace \<and> last r = rbrace \<and>
     run r init_state = init_state \<and>
     (\<forall>n<length r. 0 < n \<longrightarrow> 0 < depth (run (take n r) init_state))"

subsection \<open>Sample inputs\<close>

definition small_body :: string where
  \<open>small_body = ''"a":1''\<close>

definition small_object :: string where
  "small_object = lbrace # small_body @ [rbrace]"

definition unclosed_object :: string where
  \<open>unclosed_object = ''{"a":1''\<close>

definition string_opening :: string where
  \<open>string_opening = ''{"a":"''\<close>

definition unterminated_tail :: string where
  \<open>unterminated_tail = ''"abc''\<close>

definition string_object :: "string \<Rightarrow> string" where
  \<open>string_object t = ''{"a":"'' @ t @ ''"}''\<close>

definition escaped_quote_object :: string where
  "escaped_quote_object = string_object (''x'' @ [backslash, dquote] @ ''y'')"

definition brace_in_string_object :: string where
  "brace_in_string_object = string_object ''{not a brace}''"

text \<open>
  A wrapper that leaves one brace open and ends at its first colon, far enough into the
  input for the test \<open>i > 1000\<close>.
\<close>

definition wrapper_prefix :: string where
  \<open>wrapper_prefix = replicate 1000 CHR '' '' @ ''{"k":''\<close>

definition two_field_sample :: string where
  \<open>two_field_sample = ''{"a":1,"b":{"c":"'' @ replicate 1000 CHR ''x'' @ ''"}''\<close>

section \<open>The chunked pattern search of the two other scripts\<close>

subsection \<open>find\_comment\_pattern.py\<close>











subsection \<open>find\_comments\_carefully.py\<close>











subsection \<open>Sample files\<close>





section \<open>Properties of the brace-depth scan\<close>

subsection \<open>One turn of the loop\<close>

lemma scan_loop_hit:
  "closes_at c s \<Longrightarrow> 1000 < i \<Longrightarrow> str_find colon sample = Some k \<Longrightarrow>
   scan_loop sample (c # cs) i s = Some (k + 1, i + 1)"
  by (simp add: closes_at_def)

lemma scan_loop_miss:
  "\<not> (closes_at c s \<and> 1000 < i \<and> str_find colon sample \<noteq> None) \<Longrightarrow>
   scan_loop sample (c # cs) i s = scan_loop sample cs (Suc i) (step c s)"
  by (auto simp: closes_at_def step_def Let_def split: option.splits)

lemmas scan_loop_eval = scan_loop.simps(2) [unfolded Suc_eq_plus1]

declare scan_loop.simps(2) [simp del]

lemma miss_escape:
  "escape_next s \<Longrightarrow> scan_loop sample (c # cs) i s = scan_loop sample cs (Suc i) (step c s)"
  by (rule scan_loop_miss) (simp add: closes_at_def)

lemma miss_not_rbrace:
  "c \<noteq> rbrace \<Longrightarrow> scan_loop sample (c # cs) i s = scan_loop sample cs (Suc i) (step c s)"
  by (rule scan_loop_miss) (simp add: closes_at_def)

lemma miss_depth:
  "depth s \<noteq> 2 \<Longrightarrow> scan_loop sample (c # cs) i s = scan_loop sample cs (Suc i) (step c s)"
  by (rule scan_loop_miss) (simp add: closes_at_def)

lemma run_append: "run (xs @ ys) s = run ys (run xs s)"
  by (induction xs arbitrary: s) simp_all

lemma scan_loop_append:
  "scan_loop sample (xs @ ys) i s =
     (case scan_loop sample xs i s of
        Some r \<Rightarrow> Some r
      | None \<Rightarrow> scan_loop sample ys (i + length xs) (run xs s))"
proof (induction xs arbitrary: i s)
  case Nil
  show ?case by simp
next
  case (Cons c cs)
  show ?case
  proof (cases "closes_at c s \<and> 1000 < i \<and> str_find colon sample \<noteq> None")
    case True
    then obtain k where "str_find colon sample = Some k" by auto
    with True have "scan_loop sample (c # cs @ ys) i s = Some (k + 1, i + 1)"
      and "scan_loop sample (c # cs) i s = Some (k + 1, i + 1)"
      by (simp_all only: scan_loop_hit)
    then show ?thesis by simp
  next
    case False
    show ?thesis
      unfolding append_Cons scan_loop_miss [OF False] using Cons.IH [of "Suc i" "step c s"]
      by (simp split: option.split)
  qed
qed

subsection \<open>When the loop stops\<close>

lemma first_hit_0: "first_hit (c # cs) i s 0 \<longleftrightarrow> closes_at c s \<and> 1000 < i"
  by (simp add: first_hit_def)

lemma first_hit_Suc:
  "first_hit (c # cs) i s (Suc j) \<longleftrightarrow>
     \<not> (closes_at c s \<and> 1000 < i) \<and> first_hit cs (Suc i) (step c s) j"
proof -
  have all: "(\<forall>j'<Suc j. P j') \<longleftrightarrow> P 0 \<and> (\<forall>j'<j. P (Suc j'))" for P
    by (metis less_Suc_eq_0_disj)
  show ?thesis
    unfolding first_hit_def all by auto
qed

lemma scan_loop_Some_iff:
  "scan_loop sample cs i s = Some (a, b) \<longleftrightarrow>
     (\<exists>k j. str_find colon sample = Some k \<and> a = k + 1 \<and> b = i + j + 1 \<and> first_hit cs i s j)"
proof (induction cs arbitrary: i s)
  case Nil
  show ?case by (simp add: first_hit_def)
next
  case (Cons c cs)
  show ?case
  proof (cases "str_find colon sample")
    case None
    then have "\<not> (closes_at c s \<and> 1000 < i \<and> str_find colon sample \<noteq> None)" by simp
    then have "scan_loop sample (c # cs) i s = scan_loop sample cs (Suc i) (step c s)"
      by (rule scan_loop_miss)
    with None Cons.IH [of "Suc i" "step c s"] show ?thesis by simp
  next
    case (Some k)
    show ?thesis
    proof (cases "closes_at c s \<and> 1000 < i")
      case True
      then have eq: "scan_loop sample (c # cs) i s = Some (k + 1, i + 1)"
        using Some by (simp only: scan_loop_hit)
      have "first_hit (c # cs) i s j \<longleftrightarrow> j = 0" for j
        using True by (cases j) (simp_all add: first_hit_0 first_hit_Suc)
      then show ?thesis unfolding eq using Some by auto
    next
      case False
      then have "\<not> (closes_at c s \<and> 1000 < i \<and> str_find colon sample \<noteq> None)" by blast
      then have eq: "scan_loop sample (c # cs) i s = scan_loop sample cs (Suc i) (step c s)"
        by (rule scan_loop_miss)
      have fh: "first_hit (c # cs) i s j \<longleftrightarrow>
          (\<exists>j0. j = Suc j0 \<and> first_hit cs (Suc i) (step c s) j0)" for j
        using False by (cases j) (simp_all add: first_hit_0 first_hit_Suc)
      show ?thesis unfolding eq Cons.IH [of "Suc i" "step c s"] fh using Some by auto
    qed
  qed
qed

lemma scan_loop_None_iff:
  "scan_loop sample cs i s = None \<longleftrightarrow>
     (str_find colon sample = None \<or>
      (\<forall>j<length cs. closes_at (cs ! j) (run (take j cs) s) \<longrightarrow> i + j \<le> 1000))"
proof (induction cs arbitrary: i s)
  case Nil
  show ?case by simp
next
  case (Cons c cs)
  have all: "(\<forall>j<length (c # cs). P j) \<longleftrightarrow> P 0 \<and> (\<forall>j<length cs. P (Suc j))" for P
    by (simp add: All_less_Suc2)
  show ?case
  proof (cases "closes_at c s \<and> 1000 < i \<and> str_find colon sample \<noteq> None")
    case True
    then obtain k where "str_find colon sample = Some k" by auto
    with True have "scan_loop sample (c # cs) i s = Some (k + 1, i + 1)"
      by (simp only: scan_loop_hit)
    then show ?thesis unfolding all using True by auto
  next
    case False
    then have eq: "scan_loop sample (c # cs) i s = scan_loop sample cs (Suc i) (step c s)"
      by (rule scan_loop_miss)
    show ?thesis unfolding eq all Cons.IH [of "Suc i" "step c s"] using False by auto
  qed
qed

lemma first_close_first_hit: "first_close sample j \<longleftrightarrow> first_hit sample 0 init_state j"
proof -
  have "j' < j \<Longrightarrow> j < length sample \<Longrightarrow> j' < length sample" for j' by simp
  then show ?thesis
    unfolding first_close_def first_hit_def qualifying_def by auto
qed

lemma qualifying_length: "qualifying sample i \<Longrightarrow> i < length sample"
  by (simp add: qualifying_def)

lemma scan_loop_short:
  assumes "i + length cs \<le> 1001"
  shows "scan_loop sample cs i s = None"
  unfolding scan_loop_None_iff using assms by auto

lemma scan_loop_short_prefix:
  "i + length xs \<le> 1001 \<Longrightarrow>
   scan_loop sample (xs @ ys) i s = scan_loop sample ys (i + length xs) (run xs s)"
  by (simp add: scan_loop_append scan_loop_short)

lemma scan_loop_other_sample:
  assumes "scan_loop p cs i s = None" and "str_find colon p = Some k"
  shows "scan_loop sample cs i s = None"
  using assms unfolding scan_loop_None_iff by simp

lemma find_from_append:
  "find_from c xs k = Some j \<Longrightarrow> find_from c (xs @ ys) k = Some j"
  by (induction xs arbitrary: k) (simp_all split: if_splits)

lemma str_find_append: "str_find c xs = Some j \<Longrightarrow> str_find c (xs @ ys) = Some j"
  unfolding str_find_def by (rule find_from_append)

subsection \<open>Plain characters, string literals and nested objects\<close>

lemma step_plain: "plain c \<Longrightarrow> \<not> escape_next s \<Longrightarrow> step c s = s"
  by (simp add: plain_def step_def)

lemma closes_at_plain: "plain c \<Longrightarrow> \<not> closes_at c s"
  by (simp add: plain_def closes_at_def)

lemma scan_loop_replicate:
  "plain c \<Longrightarrow> \<not> escape_next s \<Longrightarrow>
   scan_loop sample (replicate n c @ rest) i s = scan_loop sample rest (i + n) s"
proof (induction n arbitrary: i)
  case 0
  show ?case by simp
next
  case (Suc n)
  have "\<not> (closes_at c s \<and> 1000 < i \<and> str_find colon sample \<noteq> None)"
    using Suc.prems by (simp add: closes_at_plain)
  then have "scan_loop sample (c # replicate n c @ rest) i s =
      scan_loop sample (replicate n c @ rest) (Suc i) (step c s)"
    by (rule scan_loop_miss)
  then show ?case using Suc by (simp add: step_plain)
qed

lemma run_replicate:
  "plain c \<Longrightarrow> \<not> escape_next s \<Longrightarrow> run (replicate n c @ rest) s = run rest s"
  by (induction n) (simp_all add: step_plain)

lemma find_from_replicate:
  "c \<noteq> x \<Longrightarrow> find_from x (replicate n c @ rest) k = find_from x rest (k + n)"
  by (induction n arbitrary: k) simp_all

lemma str_find_replicate:
  "c \<noteq> x \<Longrightarrow> str_find x (replicate n c @ rest) = find_from x rest n"
  by (simp add: str_find_def find_from_replicate)

lemma str_pass:
  "wf_str t \<Longrightarrow> in_string s \<Longrightarrow> \<not> escape_next s \<Longrightarrow>
   scan_loop sample (t @ rest) i s = scan_loop sample rest (i + length t) s"
proof (induction t arbitrary: i rule: wf_str.induct)
  case str_nil
  show ?case by simp
next
  case (str_char c t)
  have "step c s = s" using str_char.hyps str_char.prems by (simp add: step_def)
  moreover have "\<not> (closes_at c s \<and> 1000 < i \<and> str_find colon sample \<noteq> None)"
    using str_char.prems by (simp add: closes_at_def)
  ultimately have "scan_loop sample ((c # t) @ rest) i s = scan_loop sample (t @ rest) (Suc i) s"
    by (simp add: scan_loop_miss)
  also have "\<dots> = scan_loop sample rest (Suc i + length t) s"
    using str_char.prems by (rule str_char.IH)
  finally show ?case by simp
next
  case (str_esc t c)
  let ?s = "s\<lparr>escape_next := True\<rparr>"
  have 1: "step backslash s = ?s" using str_esc.prems by (simp add: step_def)
  have 2: "step c ?s = s" using str_esc.prems by (simp add: step_def)
  have "scan_loop sample ((backslash # c # t) @ rest) i s
      = scan_loop sample (c # t @ rest) (Suc i) ?s"
    by (simp add: miss_not_rbrace 1)
  also have "\<dots> = scan_loop sample (t @ rest) (Suc (Suc i)) s"
    by (simp add: miss_escape 2)
  also have "\<dots> = scan_loop sample rest (Suc (Suc i) + length t) s"
    using str_esc.prems by (rule str_esc.IH)
  finally show ?case by (simp add: ac_simps)
qed

lemma body_pass:
  "wf_body xs \<Longrightarrow> \<not> in_string s \<Longrightarrow> \<not> escape_next s \<Longrightarrow> 1 < depth s \<Longrightarrow>
   scan_loop sample (xs @ rest) i s = scan_loop sample rest (i + length xs) s"
proof (induction xs arbitrary: i s rest rule: wf_body.induct)
  case body_nil
  show ?case by simp
next
  case (body_plain c xs)
  have "step c s = s" using body_plain.hyps body_plain.prems by (simp add: step_plain)
  moreover have "c \<noteq> rbrace" using body_plain.hyps by (simp add: plain_def)
  ultimately show ?case using body_plain by (simp add: miss_not_rbrace)
next
  case (body_str t xs)
  let ?s = "s\<lparr>in_string := True\<rparr>"
  have 1: "step dquote s = ?s" using body_str.prems by (simp add: step_def)
  have 2: "step dquote ?s = s" using body_str.prems by (simp add: step_def)
  have "scan_loop sample ((dquote # t @ dquote # xs) @ rest) i s
      = scan_loop sample (t @ dquote # xs @ rest) (Suc i) ?s"
    by (simp add: miss_not_rbrace 1)
  also have "\<dots> = scan_loop sample (dquote # xs @ rest) (Suc i + length t) ?s"
    using body_str.hyps(1) body_str.prems by (simp add: str_pass)
  also have "\<dots> = scan_loop sample (xs @ rest) (Suc (Suc i + length t)) s"
    by (simp add: miss_not_rbrace 2)
  also have "\<dots> = scan_loop sample rest (Suc (Suc i + length t) + length xs) s"
    using body_str.prems by (rule body_str.IH)
  finally show ?case by (simp add: ac_simps)
next
  case (body_obj ys xs)
  let ?s = "s\<lparr>depth := depth s + 1\<rparr>"
  have 1: "step lbrace s = ?s" using body_obj.prems by (simp add: step_def)
  have 2: "step rbrace ?s = s" using body_obj.prems by (simp add: step_def)
  have 3: "depth ?s \<noteq> 2" using body_obj.prems by simp
  have "scan_loop sample ((lbrace # ys @ rbrace # xs) @ rest) i s
      = scan_loop sample (ys @ rbrace # xs @ rest) (Suc i) ?s"
    by (simp add: miss_not_rbrace 1)
  also have "\<dots> = scan_loop sample (rbrace # xs @ rest) (Suc i + length ys) ?s"
    using body_obj.prems by (intro body_obj.IH(1)) simp_all
  also have "\<dots> = scan_loop sample (xs @ rest) (Suc (Suc i + length ys)) s"
    using miss_depth [OF 3] by (simp add: 2)
  also have "\<dots> = scan_loop sample rest (Suc (Suc i + length ys) + length xs) s"
    using body_obj.prems by (rule body_obj.IH(2))
  finally show ?case by (simp add: ac_simps)
qed

text \<open>
  An object one level below a wrapper: the prefix \<open>p\<close> leaves one brace open, holds the
  first colon, and the loop does not stop inside it.
\<close>

lemma scan_wrapped:
  assumes body: "wf_body body"
    and wrapper: "run p init_state = \<lparr>depth = 1, in_string = False, escape_next = False\<rparr>"
    and first_colon: "str_find colon p = Some k"
    and quiet: "scan p = None"
    and far: "1000 \<le> length p + length body"
  shows "scan (p @ lbrace # body @ [rbrace]) = Some (k + 1, length p + length body + 2)"
proof -
  let ?sample = "p @ lbrace # body @ [rbrace]"
  let ?s1 = "\<lparr>depth = 1, in_string = False, escape_next = False\<rparr>"
  let ?s2 = "\<lparr>depth = 2, in_string = False, escape_next = False\<rparr>"
  have fc: "str_find colon ?sample = Some k"
    using first_colon by (rule str_find_append)
  have "scan_loop ?sample p 0 init_state = None"
    using quiet first_colon unfolding scan_def by (rule scan_loop_other_sample)
  then have "scan ?sample = scan_loop ?sample (lbrace # body @ [rbrace]) (length p) ?s1"
    unfolding scan_def by (subst scan_loop_append) (simp add: wrapper)
  also have "\<dots> = scan_loop ?sample (body @ [rbrace]) (Suc (length p)) ?s2"
    by (simp add: miss_not_rbrace step_def)
  also have "\<dots> = scan_loop ?sample [rbrace] (Suc (length p) + length body) ?s2"
    using body by (rule body_pass) simp_all
  also have "\<dots> = Some (k + 1, Suc (length p) + length body + 1)"
    using far fc by (intro scan_loop_hit) (simp_all add: closes_at_def)
  finally show ?thesis by simp
qed

lemma wf_small_body: "wf_body small_body"
proof -
  have "wf_body (dquote # ''a'' @ dquote # '':1'')"
    by (intro wf_body.intros wf_str.intros) (simp_all add: plain_def)
  then show ?thesis by (simp add: small_body_def)
qed

subsection \<open>The sample wrapper\<close>

lemma run_wrapper_prefix:
  "run wrapper_prefix init_state = \<lparr>depth = 1, in_string = False, escape_next = False\<rparr>"
  unfolding wrapper_prefix_def
  by (simp add: run_replicate plain_def init_state_def step_def)

lemma str_find_wrapper_prefix: "str_find colon wrapper_prefix = Some 1004"
  by (simp add: wrapper_prefix_def str_find_replicate)

lemma str_find_after_wrapper: "str_find colon (wrapper_prefix @ obj) = Some 1004"
  using str_find_wrapper_prefix by (rule str_find_append)

lemma length_wrapper_prefix: "length wrapper_prefix = 1005"
  by (simp add: wrapper_prefix_def)

lemma scan_wrapper_prefix: "scan wrapper_prefix = None"
  unfolding scan_def
  by (subst (2) wrapper_prefix_def)
     (simp add: scan_loop_replicate plain_def init_state_def scan_loop_eval)

lemma scan_after_wrapper:
  "scan (wrapper_prefix @ obj) =
     scan_loop (wrapper_prefix @ obj) obj 1005
       \<lparr>depth = 1, in_string = False, escape_next = False\<rparr>"
proof -
  have "scan_loop (wrapper_prefix @ obj) wrapper_prefix 0 init_state = None"
    using scan_wrapper_prefix str_find_wrapper_prefix
    unfolding scan_def by (rule scan_loop_other_sample)
  then show ?thesis
    unfolding scan_def
    by (subst scan_loop_append) (simp add: run_wrapper_prefix length_wrapper_prefix)
qed

lemma scan_wrapped_small: "scan (wrapper_prefix @ small_object) = Some (1005, 1012)"
  unfolding scan_after_wrapper
  by (simp add: small_object_def small_body_def str_find_after_wrapper scan_loop_eval)

subsection \<open>Depth is never corrected; a string stays open without a quote\<close>

lemma step_depth_shift:
  "step c (s\<lparr>depth := depth s + d\<rparr>) = (step c s)\<lparr>depth := depth (step c s) + d\<rparr>"
  by (simp add: step_def)

lemma run_depth_shift:
  "run xs (s\<lparr>depth := depth s + d\<rparr>) = (run xs s)\<lparr>depth := depth (run xs s) + d\<rparr>"
proof (induction xs arbitrary: s)
  case Nil
  show ?case by simp
next
  case (Cons c cs)
  show ?case by (simp add: step_depth_shift Cons.IH)
qed

lemma step_stays_in_string: "in_string s \<Longrightarrow> dquote \<noteq> c \<Longrightarrow> in_string (step c s)"
  by (simp add: step_def)

lemma run_stays_in_string: "in_string s \<Longrightarrow> dquote \<notin> set cs \<Longrightarrow> in_string (run cs s)"
  by (induction cs arbitrary: s) (simp_all add: step_stays_in_string)

lemma scan_loop_no_rbrace: "rbrace \<notin> set cs \<Longrightarrow> scan_loop sample cs i s = None"
  unfolding scan_loop_None_iff closes_at_def by (metis nth_mem)

lemma scan_loop_in_string:
  assumes "in_string s" and "dquote \<notin> set cs"
  shows "scan_loop sample cs i s = None"
proof -
  have "\<not> closes_at (cs ! j) (run (take j cs) s)" for j
  proof -
    have "dquote \<notin> set (take j cs)" using assms(2) by (auto dest: in_set_takeD)
    with assms(1) have "in_string (run (take j cs) s)" by (rule run_stays_in_string)
    then show ?thesis by (simp add: closes_at_def)
  qed
  then show ?thesis unfolding scan_loop_None_iff by simp
qed

section \<open>The claims about the brace-depth scan\<close>

subsection \<open>C1: what a reported span is\<close>

lemma scan_two_field: "scan two_field_sample = Some (5, 1019)"
proof -
  have fc: "str_find colon two_field_sample = Some 4"
    by (simp add: two_field_sample_def str_find_def)
  have len: \<open>length ''{"a":1,"b":{"c":"'' = 17\<close>
    by simp
  then have len1: \<open>0 + length ''{"a":1,"b":{"c":"'' \<le> 1001\<close>
    by simp
  have \<open>scan two_field_sample =
      scan_loop two_field_sample
        (''{"a":1,"b":{"c":"'' @ replicate 1000 CHR ''x'' @ [dquote, rbrace]) 0 init_state\<close>
    unfolding scan_def by (subst (2) two_field_sample_def) simp
  also have "\<dots> =
      scan_loop two_field_sample (replicate 1000 CHR ''x'' @ [dquote, rbrace]) 17
        \<lparr>depth = 2, in_string = True, escape_next = False\<rparr>"
    unfolding scan_loop_short_prefix [OF len1] len
    by (simp add: init_state_def step_def)
  also have "\<dots> = scan_loop two_field_sample [dquote, rbrace] 1017
        \<lparr>depth = 2, in_string = True, escape_next = False\<rparr>"
    by (simp add: scan_loop_replicate plain_def)
  also have "\<dots> = Some (5, 1019)"
    by (simp add: scan_loop_eval fc)
  finally show ?thesis .
qed

text \<open>
  C1, as stated, fails: on an object with two fields, the second one long, the scan
  succeeds with the span from offset 5 to offset 1019, and the characters of that span
  begin with the value of the first field, not with an opening brace; the span is not one
  balanced brace-delimited region.
\<close>

theorem scan_span_not_balanced:
  "scan two_field_sample = Some (5, 1019) \<and> \<not> balanced_region (slice two_field_sample 5 1019)"
proof -
  have "hd (slice two_field_sample 5 1019) = CHR ''1''"
    by (simp add: slice_def two_field_sample_def)
  then have "\<not> balanced_region (slice two_field_sample 5 1019)"
    by (simp add: balanced_region_def)
  with scan_two_field show ?thesis by simp
qed

text \<open>
  C1, amended: the scan reports the span \<open>(a, b)\<close> exactly when the input has a colon,
  \<open>a\<close> is one past the first colon, and \<open>b\<close> is one past the first index greater than
  1000 at which a closing brace, outside a string and not escaped, brings the depth to 1.
  In every other case, the input being exhausted, it reports nothing.
\<close>

theorem scan_span_characterisation:
  "scan sample = Some (a, b) \<longleftrightarrow>
     (\<exists>k j. str_find colon sample = Some k \<and> a = k + 1 \<and> b = j + 1 \<and> first_close sample j)"
  unfolding scan_def scan_loop_Some_iff first_close_first_hit by simp

text \<open>The characterisation at the small object below the sample wrapper.\<close>

theorem scan_span_characterisation_witness:
  "scan (wrapper_prefix @ small_object) = Some (1005, 1012) \<and>
   first_close (wrapper_prefix @ small_object) 1011"
  using scan_span_characterisation [of "wrapper_prefix @ small_object" 1005 1012]
    scan_wrapped_small
  by auto

subsection \<open>C2: a balanced object\<close>

text \<open>
  C2, as stated, fails: a well-formed object alone is not returned as a span, whether it
  is short or longer than 1001 characters; its last brace brings the depth to 0, not 1.
\<close>

theorem scan_whole_object_counterexample:
  "wf_body small_body \<and> scan (lbrace # small_body @ [rbrace]) = None \<and>
   wf_body (replicate 1001 CHR '' '') \<and>
   scan (lbrace # replicate 1001 CHR '' '' @ [rbrace]) = None"
proof -
  have 2: "scan (lbrace # small_body @ [rbrace]) = None"
    by (simp add: scan_def small_body_def scan_loop_short)
  have "wf_body (replicate n CHR '' '')" for n
    by (induction n) (simp_all add: wf_body.intros plain_def)
  then have 3: "wf_body (replicate 1001 CHR '' '')" .
  have "scan_loop sample (lbrace # replicate 1001 CHR '' '' @ [rbrace]) 0 init_state = None"
    for sample
    by (simp add: scan_loop_eval init_state_def scan_loop_replicate plain_def)
  then have 4: "scan (lbrace # replicate 1001 CHR '' '' @ [rbrace]) = None"
    by (simp add: scan_def)
  from wf_small_body 2 3 4 show ?thesis by simp
qed

text \<open>
  C2, amended: let a well-formed balanced object follow a prefix that leaves exactly one
  brace open outside any string, that contains the first colon of the input and in which
  the scan alone finds nothing, and let the closing brace of the object lie beyond offset
  1000. Then the scan returns the span from just after that first colon to the end of the
  input, and the characters from the end of the prefix to the end of the input are
  exactly the object.
\<close>

theorem scan_wrapped_object:
  assumes "wf_body body"
    and "run p init_state = \<lparr>depth = 1, in_string = False, escape_next = False\<rparr>"
    and "str_find colon p = Some k"
    and "scan p = None"
    and "1000 \<le> length p + length body"
  shows "scan (p @ lbrace # body @ [rbrace]) = Some (k + 1, length p + length body + 2)
    \<and> slice (p @ lbrace # body @ [rbrace]) (length p) (length p + length body + 2)
        = lbrace # body @ [rbrace]"
  using scan_wrapped [OF assms] by (simp add: slice_def)

text \<open>The small object below the sample wrapper, whose first colon is its last character.\<close>

theorem scan_wrapped_object_witness:
  "scan (wrapper_prefix @ lbrace # small_body @ [rbrace]) = Some (1005, 1012) \<and>
   slice (wrapper_prefix @ lbrace # small_body @ [rbrace]) 1005 1012
     = lbrace # small_body @ [rbrace]"
proof -
  have far: "1000 \<le> length wrapper_prefix + length small_body"
    by (simp add: length_wrapper_prefix)
  have len: "length small_body = 5"
    by (simp add: small_body_def)
  show ?thesis
    using scan_wrapped_object
      [OF wf_small_body run_wrapper_prefix str_find_wrapper_prefix scan_wrapper_prefix far]
    by (simp add: length_wrapper_prefix len)
qed

subsection \<open>C3: the backslash\<close>

text \<open>
  C3, as stated, fails: after a backslash met outside a string \<open>escape_next\<close> is true
  while \<open>in_string\<close> is false, and the brace or quote that follows is passed over.
\<close>

theorem escape_outside_string_counterexample:
  "escape_next (run [backslash] init_state) \<and> \<not> in_string (run [backslash] init_state) \<and>
   run [backslash, lbrace] init_state = init_state \<and>
   run [backslash, dquote] init_state = init_state"
  by (simp add: init_state_def step_def)

text \<open>
  C3, amended: a backslash that is not itself escaped sets \<open>escape_next\<close> whether or not
  the scan is inside a string, and the character after it is passed over: the loop goes
  on two places further with the three variables as they were before the backslash.
\<close>

theorem backslash_skips_next:
  "\<not> escape_next s \<Longrightarrow>
   scan_loop sample (backslash # char # rest) i s = scan_loop sample rest (i + 2) s \<and>
   run (backslash # char # rest) s = run rest s"
proof -
  assume a: "\<not> escape_next s"
  let ?s = "s\<lparr>escape_next := True\<rparr>"
  have 1: "step backslash s = ?s" using a by (simp add: step_def)
  have 2: "step char ?s = s" using a by (simp add: step_def)
  have "scan_loop sample (backslash # char # rest) i s = scan_loop sample (char # rest) (Suc i) ?s"
    by (simp add: miss_not_rbrace 1)
  also have "\<dots> = scan_loop sample rest (Suc (Suc i)) s"
    by (simp add: miss_escape 2)
  finally show ?thesis by (simp add: 1 2)
qed

text \<open>A backslash and an opening brace at the start of the input.\<close>

theorem backslash_skips_next_witness:
  "\<not> escape_next init_state \<and>
   scan_loop [] (backslash # lbrace # []) 0 init_state = None \<and>
   run (backslash # lbrace # []) init_state = init_state"
  using backslash_skips_next [of init_state "[]" lbrace "[]" 0]
  by (simp add: init_state_def)

subsection \<open>C4: an escaped quote inside a string\<close>

text \<open>
  C4, as stated, fails: the input has 12 characters, not 13, and scanned alone it gives no
  span.
\<close>

theorem escaped_quote_counterexample:
  "scan escaped_quote_object = None \<and> length escaped_quote_object = 12"
  by (simp add: scan_def escaped_quote_object_def string_object_def scan_loop_short)

text \<open>
  C4, amended: the escaped quote does not end the string (after ten characters the scan is
  still inside it, and after all twelve it is outside any string with depth 0). Below the
  sample wrapper, with its closing brace beyond offset 1000, the object is returned whole
  as one span, from 1005 to 1017.
\<close>

theorem escaped_quote_object_span:
  "in_string (run (take 10 escaped_quote_object) init_state) \<and>
   run escaped_quote_object init_state = init_state \<and>
   scan (wrapper_prefix @ escaped_quote_object) = Some (1005, 1017) \<and>
   slice (wrapper_prefix @ escaped_quote_object) 1005 1017 = escaped_quote_object"
proof -
  have 1: "in_string (run (take 10 escaped_quote_object) init_state)"
    by (simp add: escaped_quote_object_def string_object_def init_state_def step_def)
  have 2: "run escaped_quote_object init_state = init_state"
    by (simp add: escaped_quote_object_def string_object_def init_state_def step_def)
  have 3: "scan (wrapper_prefix @ escaped_quote_object) = Some (1005, 1017)"
    unfolding scan_after_wrapper
    by (simp add: escaped_quote_object_def string_object_def str_find_after_wrapper
        scan_loop_eval)
  have 4: "slice (wrapper_prefix @ escaped_quote_object) 1005 1017 = escaped_quote_object"
    by (simp add: slice_def length_wrapper_prefix escaped_quote_object_def string_object_def)
  from 1 2 3 4 show ?thesis by simp
qed

subsection \<open>C5: braces inside a string\<close>

text \<open>C5, as stated, fails: scanned alone, the object gives no span at all.\<close>

theorem brace_in_string_counterexample:
  "scan brace_in_string_object = None"
  by (simp add: scan_def brace_in_string_object_def string_object_def scan_loop_short)

text \<open>
  C5, amended: braces inside a string neither change the depth nor end a span. For every
  string content \<open>t\<close>, braces included, the object whose one field holds \<open>t\<close>, placed
  after a prefix as in C2 with its closing brace beyond offset 1000, is returned up to its
  own closing brace, the last character of the input.
\<close>

theorem scan_object_with_braces_in_string:
  assumes "wf_str t"
    and "run p init_state = \<lparr>depth = 1, in_string = False, escape_next = False\<rparr>"
    and "str_find colon p = Some k"
    and "scan p = None"
    and "1000 < length p + length t + 7"
  shows "scan (p @ string_object t) = Some (k + 1, length p + length t + 8)"
proof -
  have "wf_body (dquote # ''a'' @ dquote # colon # dquote # t @ dquote # [])"
    using assms(1) by (intro wf_body.intros wf_str.intros) (simp_all add: plain_def)
  then have b: "wf_body (dquote # CHR ''a'' # dquote # colon # dquote # t @ [dquote])" by simp
  have far: "1000 \<le> length p + length (dquote # CHR ''a'' # dquote # colon # dquote # t @ [dquote])"
    using assms(5) by simp
  show ?thesis
    using scan_wrapped [OF b assms(2,3,4) far] by (simp add: string_object_def)
qed

text \<open>The object of the claim below the sample wrapper.\<close>

theorem scan_object_with_braces_in_string_witness:
  "wf_str ''{not a brace}'' \<and>
   scan (wrapper_prefix @ brace_in_string_object) = Some (1005, 1026) \<and>
   slice (wrapper_prefix @ brace_in_string_object) 1005 1026 = brace_in_string_object"
proof -
  have 1: "wf_str ''{not a brace}''"
    by (intro wf_str.intros) simp_all
  have 2: "1000 < length wrapper_prefix + length ''{not a brace}'' + 7"
    by (simp add: length_wrapper_prefix)
  show ?thesis
    using 1
      scan_object_with_braces_in_string
        [OF 1 run_wrapper_prefix str_find_wrapper_prefix scan_wrapper_prefix 2]
    by (simp add: length_wrapper_prefix brace_in_string_object_def string_object_def slice_def)
qed

subsection \<open>C6: a stray closing brace\<close>

text \<open>
  C6, as stated, fails: the object after a stray closing brace is not found, neither alone
  nor below the sample wrapper, where it is found when the stray brace is absent.
\<close>

theorem stray_brace_counterexample:
  "scan (rbrace # small_object) = None \<and>
   scan (wrapper_prefix @ small_object) = Some (1005, 1012) \<and>
   scan (rbrace # wrapper_prefix @ small_object) = None"
proof -
  have 1: "scan (rbrace # small_object) = None"
    by (simp add: scan_def small_object_def small_body_def scan_loop_short)
  have "scan_loop sample (rbrace # wrapper_prefix @ small_object) 0 init_state = None"
    for sample
    by (simp add: wrapper_prefix_def small_object_def small_body_def scan_loop_eval
        init_state_def scan_loop_replicate plain_def)
  then have 3: "scan (rbrace # wrapper_prefix @ small_object) = None"
    by (simp add: scan_def)
  from 1 scan_wrapped_small 3 show ?thesis by simp
qed

text \<open>
  C6, amended: the scan does not fail on a stray closing brace, and the depth is not
  clamped: a leading closing brace makes the depth negative, and every depth after it is
  exactly one lower than it would be without the stray brace, the other two variables
  being the same.
\<close>

theorem stray_brace_lowers_depth:
  "run (rbrace # xs) init_state = (run xs init_state)\<lparr>depth := depth (run xs init_state) - 1\<rparr>"
proof -
  have "step rbrace init_state = init_state\<lparr>depth := depth init_state + (- 1)\<rparr>"
    by (simp add: step_def init_state_def)
  then show ?thesis
    using run_depth_shift [of xs init_state "- 1"] by simp
qed

subsection \<open>C7: input that ends unbalanced or inside a string\<close>

text \<open>
  C7, as stated, fails: an input may end with a brace still open, or inside a string, and
  the scan still reports the span it completed earlier.
\<close>

theorem unbalanced_end_counterexample:
  "depth (run (wrapper_prefix @ small_object) init_state) = 1 \<and>
   scan (wrapper_prefix @ small_object) = Some (1005, 1012) \<and>
   in_string (run (wrapper_prefix @ small_object @ unterminated_tail) init_state) \<and>
   scan (wrapper_prefix @ small_object @ unterminated_tail) = Some (1005, 1012)"
proof -
  have 1: "depth (run (wrapper_prefix @ small_object) init_state) = 1"
    by (simp add: run_append run_wrapper_prefix small_object_def small_body_def step_def)
  have 3: "in_string (run (wrapper_prefix @ small_object @ unterminated_tail) init_state)"
    by (simp add: run_append run_wrapper_prefix small_object_def small_body_def
        unterminated_tail_def step_def)
  have 4: "scan (wrapper_prefix @ small_object @ unterminated_tail) = Some (1005, 1012)"
    unfolding scan_after_wrapper
    by (simp add: small_object_def small_body_def unterminated_tail_def
        str_find_after_wrapper scan_loop_eval)
  from 1 scan_wrapped_small 3 4 show ?thesis by simp
qed

text \<open>
  C7, amended: when no span completes within a first part of the input, and the rest of
  the input either has no closing brace, or lies wholly inside a string that the first part
  left open (the rest has no quote), the scan reports nothing; it is a total function and
  raises no error. A span completed earlier is reported whatever the end of the input is.
\<close>

theorem scan_exhausted:
  assumes "scan_loop (xs @ ys) xs 0 init_state = None"
    and "rbrace \<notin> set ys \<or> (in_string (run xs init_state) \<and> dquote \<notin> set ys)"
  shows "scan (xs @ ys) = None"
proof -
  have "scan_loop (xs @ ys) ys (0 + length xs) (run xs init_state) = None"
    using assms(2) by (auto simp: scan_loop_no_rbrace scan_loop_in_string)
  with assms(1) show ?thesis
    unfolding scan_def by (simp add: scan_loop_append)
qed

text \<open>
  An object that is never closed, and a string that is never closed although a closing
  brace follows.
\<close>

theorem scan_exhausted_witness:
  "scan ([] @ unclosed_object) = None \<and> scan (string_opening @ ''x}'') = None"
proof -
  have 1: "scan_loop ([] @ unclosed_object) [] 0 init_state = None"
    by simp
  have 2: "rbrace \<notin> set unclosed_object \<or>
      (in_string (run [] init_state) \<and> dquote \<notin> set unclosed_object)"
    by (simp add: unclosed_object_def)
  have 3: "scan_loop (string_opening @ ''x}'') string_opening 0 init_state = None"
    by (simp add: scan_loop_short string_opening_def)
  have 4: "rbrace \<notin> set ''x}'' \<or>
      (in_string (run string_opening init_state) \<and> dquote \<notin> set ''x}'')"
    by (simp add: string_opening_def init_state_def step_def)
  show ?thesis
    using scan_exhausted [OF 1 2] scan_exhausted [OF 3 4] by simp
qed

subsection \<open>C9: running the scan again\<close>

text \<open>
  C9: the scan on the same file gives the same result whatever values an earlier run left
  in \<open>depth\<close>, \<open>in_string\<close> and \<open>escape_next\<close>, since they are assigned afresh
  before the loop; the result is that of the scan of the first 10000 characters.
\<close>

theorem run_script_repeatable:
  "run_script leftover file = run_script leftover' file \<and>
   run_script leftover file = scan (take 10000 file)"
  by (simp add: run_script_def scan_def read_def Let_def)

subsection \<open>C10: the threshold 1000 and the depth 1\<close>

text \<open>
  C10: a reported span ends just after an index greater than 1000 at which a closing brace
  brings the depth to exactly 1; when every such closing brace is at an index of 1000 or
  less the scan reports nothing, and so it does on every input of at most 1001 characters.
\<close>

theorem scan_threshold:
  "(scan sample = Some (a, b) \<longrightarrow> 1000 < b - 1 \<and> qualifying sample (b - 1)) \<and>
   ((\<forall>i. qualifying sample i \<longrightarrow> i \<le> 1000) \<longrightarrow> scan sample = None) \<and>
   (length sample \<le> 1001 \<longrightarrow> scan sample = None)"
proof -
  have 1: "1000 < b - 1 \<and> qualifying sample (b - 1)" if "scan sample = Some (a, b)"
  proof -
    from that obtain j where "b = j + 1" "first_hit sample 0 init_state j"
      unfolding scan_def scan_loop_Some_iff by auto
    then show ?thesis
      by (simp add: first_hit_def qualifying_def)
  qed
  have 2: "scan sample = None" if "\<forall>i. qualifying sample i \<longrightarrow> i \<le> 1000"
    using that unfolding scan_def scan_loop_None_iff qualifying_def by auto
  have 3: "scan sample = None" if "length sample \<le> 1001"
    using that unfolding scan_def by (simp add: scan_loop_short)
  from 1 2 3 show ?thesis by blast
qed

text \<open>The small object alone, and below the sample wrapper.\<close>

theorem scan_threshold_witness:
  "scan small_object = None \<and> length small_object \<le> 1001 \<and>
   scan (wrapper_prefix @ small_object) = Some (1005, 1012) \<and>
   qualifying (wrapper_prefix @ small_object) 1011"
proof -
  have len: "length small_object \<le> 1001"
    by (simp add: small_object_def small_body_def)
  have "qualifying small_object i \<longrightarrow> i \<le> 1000" for i
    using qualifying_length [of small_object i] len by auto
  then have all: "\<forall>i. qualifying small_object i \<longrightarrow> i \<le> 1000" by blast
  show ?thesis
    using scan_threshold [of small_object 0 0] all len
      scan_threshold [of "wrapper_prefix @ small_object" 1005 1012] scan_wrapped_small
    by simp
qed

section \<open>Properties of the chunked pattern search\<close>























section \<open>The claim about chunks\<close>







end
